theory Spec2Isabelle
  imports Complex_Main
begin

section \<open>Strings and the Go library functions the controllers use\<close>

text \<open>
  A Go string is a sequence of bytes, and \<open>len\<close>, slicing and comparison work on bytes;
  \<^typ>\<open>string\<close> (a list of 8-bit characters) is the same thing. The functions of the Go
  package \<open>strings\<close> that \<open>controllers/utils.go\<close> calls are written out from their
  documented behaviour. A Go \<open>error\<close> is modelled by its message, and \<open>nil\<close> by \<open>None\<close>.
\<close>

type_synonym error = string

text \<open>\<open>strings.HasSuffix(s, suffix)\<close>:
  \<open>len(s) >= len(suffix) && s[len(s)-len(suffix):] == suffix\<close>.\<close>

definition HasSuffix :: "string \<Rightarrow> string \<Rightarrow> bool" where
  "HasSuffix s suffix =
     (length suffix \<le> length s \<and> drop (length s - length suffix) s = suffix)"

text \<open>\<open>strings.HasPrefix(s, prefix)\<close>:
  \<open>len(s) >= len(prefix) && s[:len(prefix)] == prefix\<close>.\<close>

definition HasPrefix :: "string \<Rightarrow> string \<Rightarrow> bool" where
  "HasPrefix s prefix = (length prefix \<le> length s \<and> take (length prefix) s = prefix)"

text \<open>\<open>strings.Index(s, substr)\<close>: the index of the first instance of \<open>substr\<close> in
  \<open>s\<close>, or \<open>-1\<close> if there is none.\<close>

definition Index :: "string \<Rightarrow> string \<Rightarrow> int" where
  "Index s substr =
     (case List.find (\<lambda>i. HasPrefix (drop i s) substr) [0 ..< Suc (length s)] of
        None \<Rightarrow> - 1
      | Some i \<Rightarrow> int i)"

text \<open>\<open>strings.LastIndex(s, substr)\<close>: the index of the last instance of \<open>substr\<close>
  in \<open>s\<close>, or \<open>-1\<close> if there is none.\<close>

definition LastIndex :: "string \<Rightarrow> string \<Rightarrow> int" where
  "LastIndex s substr =
     (case List.find (\<lambda>i. HasPrefix (drop i s) substr) (rev [0 ..< Suc (length s)]) of
        None \<Rightarrow> - 1
      | Some i \<Rightarrow> int i)"

text \<open>\<open>strings.Trim(s, cutset)\<close>: \<open>s\<close> without the leading and trailing bytes that
  occur in \<open>cutset\<close> (the only cutset used here is the single ASCII byte \<open>-\<close>, for which
  Go trims byte by byte).\<close>

definition Trim :: "string \<Rightarrow> string \<Rightarrow> string" where
  "Trim s cutset =
     rev (dropWhile (\<lambda>c. c \<in> set cutset) (rev (dropWhile (\<lambda>c. c \<in> set cutset) s)))"


section \<open>Collection utilities\<close>

text \<open>
  \<^verbatim>\<open>func findSuffix(slice []string, val string) (int, bool)\<close>: the \<open>range\<close> loop, with
  the running index as an argument.
\<close>

fun findSuffix_from :: "nat \<Rightarrow> string list \<Rightarrow> string \<Rightarrow> int \<times> bool" where
  "findSuffix_from i [] val = (- 1, False)"
| "findSuffix_from i (item # rest) val =
     (if HasSuffix val item then (int i, True) else findSuffix_from (Suc i) rest val)"

definition findSuffix :: "string list \<Rightarrow> string \<Rightarrow> int \<times> bool" where
  "findSuffix slice val = findSuffix_from 0 slice val"

text \<open>\<^verbatim>\<open>func find(slice []string, val string) (int, bool)\<close> (the name \<open>find\<close> is taken
  by the list library).\<close>

fun find_from :: "nat \<Rightarrow> string list \<Rightarrow> string \<Rightarrow> int \<times> bool" where
  "find_from i [] val = (- 1, False)"
| "find_from i (item # rest) val =
     (if item = val then (int i, True) else find_from (Suc i) rest val)"

definition find_go :: "string list \<Rightarrow> string \<Rightarrow> int \<times> bool" where
  "find_go slice val = find_from 0 slice val"

definition findValue :: "string list \<Rightarrow> string \<Rightarrow> bool" where
  "findValue slice val = (let (_, ok) = find_go slice val in ok)"

text \<open>\<^verbatim>\<open>func appendUnique(slice []string, value string) []string\<close>.\<close>

definition appendUnique :: "string list \<Rightarrow> string \<Rightarrow> string list" where
  "appendUnique slice v =
     (let (_, ok) = find_go slice v
      in if \<not> ok then slice @ [v] else slice)"


section \<open>Naming and timestamp utilities\<close>

text \<open>\<^verbatim>\<open>func getValidKsRestoreName(clusterRestoreName string, backupName string) string\<close>.
  The slice \<open>fullName[:252]\<close> is taken only when \<open>len(fullName) > 252\<close>, so it is in range
  and is \<^term>\<open>take 252\<close>.\<close>

definition getValidKsRestoreName :: "string \<Rightarrow> string \<Rightarrow> string" where
  "getValidKsRestoreName clusterRestoreName backupName =
     (let fullName = clusterRestoreName @ ''-'' @ backupName
      in if length fullName > 252 then take 252 fullName else fullName)"

text \<open>
  \<^verbatim>\<open>func getBackupTimestamp(backupName string) (time.Time, error)\<close>. The type
  \<open>time.Time\<close> and the parser \<open>time.Parse\<close> belong to the Go standard library: the
  parser and the zero value \<open>time.Time{}\<close> are parameters of the model. The slice
  \<open>backupName[timestampIndex:]\<close> is in range, because \<open>LastIndex\<close> returns an index
  of the string.
\<close>

definition getBackupTimestamp ::
  "(string \<Rightarrow> string \<Rightarrow> 't \<times> error option) \<Rightarrow> 't \<Rightarrow> string \<Rightarrow> 't \<times> error option" where
  "getBackupTimestamp Parse zeroTime backupName =
     (let timestampIndex = LastIndex backupName ''-''
      in if timestampIndex \<noteq> - 1
         then let timestampStr = Trim (drop (nat timestampIndex) backupName) ''-''
              in Parse ''20060102150405'' timestampStr
         else (zeroTime, None))"


section \<open>Resource name codec\<close>

text \<open>\<^verbatim>\<open>func getResourceDetails(resourceName string) (string, string)\<close>. Both slices
  are in range: \<open>indexOfName\<close> is the index of a byte of the string.\<close>

definition getResourceDetails :: "string \<Rightarrow> string \<times> string" where
  "getResourceDetails resourceName =
     (let indexOfName = Index resourceName ''.''
      in if indexOfName > - 1
         then (take (nat indexOfName) resourceName, drop (nat (indexOfName + 1)) resourceName)
         else (resourceName, ''''))"

section \<open>Panics\<close>

text \<open>
  A Go call either returns its results or panics (a nil pointer dereference, a failed type
  assertion, a reflection call on a value of the wrong kind). Functions of the source that
  can panic return an \<open>outcome\<close>.
\<close>

datatype 'a outcome = Panic | Return 'a


section \<open>Storage location validator\<close>

text \<open>
  The fields of the velero and apimachinery types that the validator reads. A Go slice can
  be \<open>nil\<close>, which the validator tests for: \<open>OwnerReferences\<close> is an optional list, with
  \<open>None\<close> for \<open>nil\<close> and \<open>Some []\<close> for an empty slice that is not \<open>nil\<close>.
\<close>

record OwnerReference =
  Kind :: string

record BackupStorageLocationStatus =
  Phase :: string

record BackupStorageLocation =
  Namespace :: string
  OwnerReferences :: "OwnerReference list option"
  Status :: BackupStorageLocationStatus

record BackupStorageLocationList =
  Items :: "BackupStorageLocation list"

text \<open>The constant \<open>veleroapi.BackupStorageLocationPhaseAvailable\<close> of the velero API
  package, whose value is the string \<open>Available\<close>.\<close>

definition BackupStorageLocationPhaseAvailable :: string where
  "BackupStorageLocationPhaseAvailable = ''Available''"

text \<open>
  \<^verbatim>\<open>func isValidStorageLocationDefined(veleroStorageLocations
      veleroapi.BackupStorageLocationList) (bool, string)\<close>.
  The state of both loops is the pair \<open>(isValidStorageLocation, veleroNamespace)\<close>. The
  inner loop runs over the owner references of one location and leaves at the first
  reference with a non-empty kind; the outer loop leaves as soon as the flag is set.
\<close>

fun ownerReferences_loop ::
  "string \<Rightarrow> OwnerReference list \<Rightarrow> bool \<times> string \<Rightarrow> bool \<times> string" where
  "ownerReferences_loop ns [] st = st"
| "ownerReferences_loop ns (ref # refs) st =
     (if OwnerReference.Kind ref \<noteq> '''' then (True, ns)
      else ownerReferences_loop ns refs st)"

fun items_loop :: "BackupStorageLocation list \<Rightarrow> bool \<times> string \<Rightarrow> bool \<times> string" where
  "items_loop [] st = st"
| "items_loop (item # items) st =
     (let st' =
        (case OwnerReferences item of
           None \<Rightarrow> st
         | Some refs \<Rightarrow>
             if Phase (Status item) = BackupStorageLocationPhaseAvailable
             then ownerReferences_loop (Namespace item) refs st
             else st)
      in if fst st' then st' else items_loop items st')"

definition isValidStorageLocationDefined :: "BackupStorageLocationList \<Rightarrow> bool \<times> string" where
  "isValidStorageLocationDefined veleroStorageLocations =
     items_loop (Items veleroStorageLocations) (False, '''')"

text \<open>
  The specification's words for a location that counts: it has a non-empty list of owner
  references, one of them with a non-empty kind, and its phase is \<open>Available\<close>.
\<close>

definition qualifies :: "BackupStorageLocation \<Rightarrow> bool" where
  "qualifies loc =
     ((case OwnerReferences loc of
         None \<Rightarrow> False
       | Some refs \<Rightarrow> refs \<noteq> [] \<and> (\<exists>ref \<in> set refs. OwnerReference.Kind ref \<noteq> ''''))
      \<and> Phase (Status loc) = ''Available'')"


section \<open>Generic resource discovery\<close>

text \<open>
  The discovery catalog. \<open>ServerGroups\<close> and \<open>ServerResourcesForGroupVersion\<close> are the two
  methods of \<open>discovery.DiscoveryInterface\<close> that the function calls; each returns a
  pointer (\<open>None\<close> for \<open>nil\<close>) and an error (\<open>None\<close> for \<open>nil\<close>). Within one call the
  catalog answers the same group-version string in the same way. The backup is passed by
  pointer, so it is optional as well.
\<close>

record GroupVersionForDiscovery =
  GroupVersion :: string
  Version :: string

record APIGroup =
  Name :: string
  Versions :: "GroupVersionForDiscovery list"

record APIGroupList =
  Groups :: "APIGroup list"

record APIResource =
  Kind :: string

record APIResourceList =
  APIResources :: "APIResource list"

record DiscoveryInterface =
  ServerGroups :: "APIGroupList option \<times> error option"
  ServerResourcesForGroupVersion :: "string \<Rightarrow> APIResourceList option \<times> error option"

record BackupSpec =
  ExcludedResources :: "string list"

record Backup =
  Spec :: BackupSpec

text \<open>
  \<^verbatim>\<open>func getGenericCRDFromAPIGroups(ctx context.Context, dc discovery.DiscoveryInterface,
      veleroBackup *veleroapi.Backup) ([]string, error)\<close>.
  The three nested \<open>range\<close> loops, innermost first, each passing on the slice
  \<open>resources\<close>. \<open>strings.ToLower\<close> is the Go library's (it maps Unicode letters, not only
  ASCII ones) and is a parameter. The logger only writes messages and is left out.
  \<open>veleroBackup.Spec\<close> is read once for every resource, and panics on a \<open>nil\<close> backup.
\<close>

fun apiResources_loop ::
  "(string \<Rightarrow> string) \<Rightarrow> Backup option \<Rightarrow> APIGroup \<Rightarrow> APIResource list \<Rightarrow> string list
     \<Rightarrow> string list outcome" where
  "apiResources_loop ToLower veleroBackup grp [] resources = Return resources"
| "apiResources_loop ToLower veleroBackup grp (resource # rest) resources =
     (let resourceKind = ToLower (APIResource.Kind resource);
          resourceName = resourceKind @ ''.'' @ Name grp
      in case veleroBackup of
           None \<Rightarrow> Panic
         | Some backup \<Rightarrow>
             if \<not> findValue (ExcludedResources (Spec backup)) resourceName \<and>
                \<not> findValue (ExcludedResources (Spec backup)) resourceKind
             then apiResources_loop ToLower veleroBackup grp rest
                    (appendUnique resources resourceName)
             else apiResources_loop ToLower veleroBackup grp rest resources)"

fun versions_loop ::
  "(string \<Rightarrow> string) \<Rightarrow> DiscoveryInterface \<Rightarrow> Backup option \<Rightarrow> APIGroup
     \<Rightarrow> GroupVersionForDiscovery list \<Rightarrow> string list \<Rightarrow> string list outcome" where
  "versions_loop ToLower dc veleroBackup grp [] resources = Return resources"
| "versions_loop ToLower dc veleroBackup grp (version # rest) resources =
     (case ServerResourcesForGroupVersion dc (GroupVersion version) of
        (resourceList, Some err) \<Rightarrow> versions_loop ToLower dc veleroBackup grp rest resources
      | (None, None) \<Rightarrow> versions_loop ToLower dc veleroBackup grp rest resources
      | (Some resourceList, None) \<Rightarrow>
          if Name grp = '''' then versions_loop ToLower dc veleroBackup grp rest resources
          else (case apiResources_loop ToLower veleroBackup grp
                       (APIResources resourceList) resources of
                  Panic \<Rightarrow> Panic
                | Return resources' \<Rightarrow>
                    versions_loop ToLower dc veleroBackup grp rest resources'))"

fun groups_loop ::
  "(string \<Rightarrow> string) \<Rightarrow> DiscoveryInterface \<Rightarrow> Backup option \<Rightarrow> APIGroup list
     \<Rightarrow> string list \<Rightarrow> string list outcome" where
  "groups_loop ToLower dc veleroBackup [] resources = Return resources"
| "groups_loop ToLower dc veleroBackup (grp # rest) resources =
     (case versions_loop ToLower dc veleroBackup grp (Versions grp) resources of
        Panic \<Rightarrow> Panic
      | Return resources' \<Rightarrow> groups_loop ToLower dc veleroBackup rest resources')"

definition getGenericCRDFromAPIGroups ::
  "(string \<Rightarrow> string) \<Rightarrow> DiscoveryInterface \<Rightarrow> Backup option
     \<Rightarrow> (string list \<times> error option) outcome" where
  "getGenericCRDFromAPIGroups ToLower dc veleroBackup =
     (let resources = []
      in case ServerGroups dc of
           (groupList, Some err) \<Rightarrow>
             Return (resources, Some (''failed to get server groups: '' @ err))
         | (None, None) \<Rightarrow> Return (resources, None)
         | (Some groupList, None) \<Rightarrow>
             (case groups_loop ToLower dc veleroBackup (Groups groupList) resources of
                Panic \<Rightarrow> Panic
              | Return resources' \<Rightarrow> Return (resources', None)))"

text \<open>
  The catalog without the group-versions whose resource fetch fails: every group keeps
  the versions for which \<open>ServerResourcesForGroupVersion\<close> reports no error.
\<close>

definition fetched :: "DiscoveryInterface \<Rightarrow> GroupVersionForDiscovery \<Rightarrow> bool" where
  "fetched dc version = (snd (ServerResourcesForGroupVersion dc (GroupVersion version)) = None)"

definition without_failed :: "DiscoveryInterface \<Rightarrow> DiscoveryInterface" where
  "without_failed dc =
     dc\<lparr>ServerGroups :=
          (map_option
             (\<lambda>groupList. groupList\<lparr>Groups :=
                 map (\<lambda>grp. grp\<lparr>Versions := filter (fetched dc) (Versions grp)\<rparr>)
                   (Groups groupList)\<rparr>)
             (fst (ServerGroups dc)),
           snd (ServerGroups dc))\<rparr>"

text \<open>
  The specification's words for the result. A resource list names, for each of its
  resources, the lowercased kind and the resource name \<open>kind.group\<close>. A group-version
  offers the names of its resource list when the fetch succeeds with a list and the group
  has a name, and nothing otherwise; the catalog offers what the versions of its groups
  offer. A name is admitted when neither it nor its kind is in the exclusion list.
\<close>

definition names_of ::
  "(string \<Rightarrow> string) \<Rightarrow> APIGroup \<Rightarrow> APIResource list \<Rightarrow> (string \<times> string) set" where
  "names_of ToLower grp resourceList =
     (\<lambda>resource. (ToLower (APIResource.Kind resource),
                   ToLower (APIResource.Kind resource) @ ''.'' @ Name grp)) ` set resourceList"

definition offered_by_version ::
  "(string \<Rightarrow> string) \<Rightarrow> DiscoveryInterface \<Rightarrow> APIGroup \<Rightarrow> GroupVersionForDiscovery
     \<Rightarrow> (string \<times> string) set" where
  "offered_by_version ToLower dc grp version =
     (case ServerResourcesForGroupVersion dc (GroupVersion version) of
        (Some resourceList, None) \<Rightarrow>
          if Name grp = '''' then {} else names_of ToLower grp (APIResources resourceList)
      | _ \<Rightarrow> {})"

definition offered ::
  "(string \<Rightarrow> string) \<Rightarrow> DiscoveryInterface \<Rightarrow> APIGroup list \<Rightarrow> (string \<times> string) set" where
  "offered ToLower dc groups =
     (\<Union>grp \<in> set groups. \<Union>version \<in> set (Versions grp).
        offered_by_version ToLower dc grp version)"

definition admitted :: "string list \<Rightarrow> (string \<times> string) set \<Rightarrow> string set" where
  "admitted exclusions S =
     {name. \<exists>kind. (kind, name) \<in> S \<and> name \<notin> set exclusions \<and> kind \<notin> set exclusions}"

text \<open>The groups of the catalog: those of the group list when the fetch succeeds with a
  list, none otherwise.\<close>

definition catalog :: "DiscoveryInterface \<Rightarrow> APIGroup list" where
  "catalog dc = (case ServerGroups dc of (Some groupList, None) \<Rightarrow> Groups groupList | _ \<Rightarrow> [])"


section \<open>Hub identity resolver\<close>

text \<open>
  The payload of an unstructured object is a tree of Go \<open>interface{}\<close> values, as the
  JSON decoder builds it: \<open>nil\<close>, strings, numbers, booleans, slices and maps keyed by
  strings. A map is given by its entries in the order in which the \<open>range\<close> over it visits
  them (Go fixes no order); a Go map binds a key once.
\<close>

datatype val =
    VNil
  | VString string
  | VInt int
  | VFloat real
  | VBool bool
  | VSlice "val list"
  | VMap "(string \<times> val) list"

text \<open>A map lookup \<open>m[key]\<close> gives \<open>nil\<close> for a key that is not bound.\<close>

definition lookup :: "(string \<times> val) list \<Rightarrow> string \<Rightarrow> val" where
  "lookup m key = (case map_of m key of None \<Rightarrow> VNil | Some v \<Rightarrow> v)"

record Unstructured =
  Object :: "(string \<times> val) list option"

record UnstructuredList =
  Items :: "Unstructured list"

record GroupKind =
  Group :: string
  Kind :: string

record GroupVersionResource =
  Group :: string
  Version :: string
  Resource :: string

record RESTMapping =
  Resource :: GroupVersionResource

text \<open>
  The collaborators: \<open>mapper.RESTMapping(groupKind, versions...)\<close>, which returns a pointer
  to a mapping and an error; \<open>dyn.Resource(resource)\<close>, which returns an interface value
  (\<open>None\<close> for \<open>nil\<close>); and the \<open>List\<close> method of that value, which returns a pointer to
  the list and an error.
\<close>

record ResourceInterface =
  List :: "UnstructuredList option \<times> error option"

type_synonym RESTMapper = "GroupKind \<Rightarrow> string list \<Rightarrow> RESTMapping option \<times> error option"

type_synonym DynamicInterface = "GroupVersionResource \<Rightarrow> ResourceInterface option"

text \<open>
  The loop over \<open>reflect.ValueOf(specInfo).MapRange()\<close>: \<open>uid = value.(string)\<close> is a type
  assertion with one result, which panics when the value is not a string.
\<close>

fun mapRange_loop :: "(string \<times> val) list \<Rightarrow> string \<Rightarrow> string outcome" where
  "mapRange_loop [] uid = Return uid"
| "mapRange_loop ((key, v) # rest) uid =
     (if key = ''clusterID''
      then (case v of VString s \<Rightarrow> mapRange_loop rest s | _ \<Rightarrow> Panic)
      else mapRange_loop rest uid)"

text \<open>
  \<^verbatim>\<open>func getHubIdentification(ctx context.Context, dc discovery.DiscoveryInterface,
      dyn dynamic.Interface, mapper *restmapper.DeferredDiscoveryRESTMapper) (string, error)\<close>.
  \<open>dc\<close> is not used by the body, and the logger only writes messages. \<open>dyn\<close> and
  \<open>mapper\<close> are given by what their methods return. \<open>mapping.Resource\<close> dereferences
  the mapping, and \<open>MapRange\<close> panics on a value that is not a map. The conditions of
  the \<open>if\<close> after the list call are tried from left to right, as \<open>||\<close> does.
\<close>

definition getHubIdentification ::
  "DynamicInterface \<Rightarrow> RESTMapper \<Rightarrow> (string \<times> error option) outcome" where
  "getHubIdentification dyn mapper =
     (let uid = ''unknown'';
          groupKind = \<lparr>GroupKind.Group = ''config.openshift.io'',
                       GroupKind.Kind = ''ClusterVersion''\<rparr>
      in case mapper groupKind [''''] of
           (mapping, Some err) \<Rightarrow> Return (uid, Some err)
         | (None, None) \<Rightarrow> Panic
         | (Some mapping, None) \<Rightarrow>
             (case dyn (RESTMapping.Resource mapping) of
                None \<Rightarrow> Return (uid, None)
              | Some dr \<Rightarrow>
                  (case List dr of
                     (items, Some err) \<Rightarrow> Return (uid, Some err)
                   | (None, None) \<Rightarrow> Return (uid, None)
                   | (Some items, None) \<Rightarrow>
                       (case UnstructuredList.Items items of
                          [] \<Rightarrow> Return (uid, None)
                        | item # _ \<Rightarrow>
                            (case Object item of
                               None \<Rightarrow> Return (uid, None)
                             | Some object \<Rightarrow>
                                 (case lookup object ''spec'' of
                                    VNil \<Rightarrow> Return (uid, None)
                                  | VMap entries \<Rightarrow>
                                      (case mapRange_loop entries uid of
                                         Panic \<Rightarrow> Panic
                                       | Return uid' \<Rightarrow> Return (uid', None))
                                  | _ \<Rightarrow> Panic))))))"

section \<open>Example inputs\<close>

text \<open>\<open>strings.ToLower\<close> on ASCII strings, for the examples.\<close>

definition toLowerASCII :: "string \<Rightarrow> string" where
  "toLowerASCII s =
     map (\<lambda>c. case map_of (zip ''ABCDEFGHIJKLMNOPQRSTUVWXYZ'' ''abcdefghijklmnopqrstuvwxyz'') c of
                 None \<Rightarrow> c
               | Some l \<Rightarrow> l) s"

text \<open>
  A catalog with the group \<open>apps\<close> in two versions, the group \<open>batch\<close> whose only version
  cannot be fetched, and the unnamed core group; and a backup that excludes a bare kind, a
  full name, and a string that is only a suffix of a name.
\<close>

definition example_catalog :: DiscoveryInterface where
  "example_catalog =
     \<lparr>ServerGroups =
        (Some \<lparr>Groups =
           [\<lparr>Name = ''apps'',
             Versions = [\<lparr>GroupVersion = ''apps/v1'', Version = ''v1''\<rparr>,
                         \<lparr>GroupVersion = ''apps/v1beta1'', Version = ''v1beta1''\<rparr>]\<rparr>,
            \<lparr>Name = ''batch'',
             Versions = [\<lparr>GroupVersion = ''batch/v1'', Version = ''v1''\<rparr>]\<rparr>,
            \<lparr>Name = '''',
             Versions = [\<lparr>GroupVersion = ''v1'', Version = ''v1''\<rparr>]\<rparr>]\<rparr>,
         None),
      ServerResourcesForGroupVersion =
        (\<lambda>groupVersion.
           if groupVersion = ''apps/v1''
           then (Some \<lparr>APIResources = [\<lparr>APIResource.Kind = ''Deployment''\<rparr>,
                                        \<lparr>APIResource.Kind = ''StatefulSet''\<rparr>,
                                        \<lparr>APIResource.Kind = ''ReplicaSet''\<rparr>]\<rparr>, None)
           else if groupVersion = ''apps/v1beta1''
           then (Some \<lparr>APIResources = [\<lparr>APIResource.Kind = ''Deployment''\<rparr>]\<rparr>, None)
           else if groupVersion = ''v1''
           then (Some \<lparr>APIResources = [\<lparr>APIResource.Kind = ''Pod''\<rparr>]\<rparr>, None)
           else (None, Some ''the server could not find the requested resource''))\<rparr>"

definition example_unavailable :: DiscoveryInterface where
  "example_unavailable =
     \<lparr>ServerGroups = (None, Some ''connection refused''),
      ServerResourcesForGroupVersion = (\<lambda>groupVersion. (None, Some ''connection refused''))\<rparr>"

definition example_backup :: Backup where
  "example_backup =
     \<lparr>Spec = \<lparr>ExcludedResources = [''statefulset'', ''replicaset.apps'', ''ment.apps'']\<rparr>\<rparr>"

text \<open>
  Storage locations: one without owner references, one owned but not available, one owned
  and available whose first owner reference has no kind, and a later one that qualifies
  too.
\<close>

definition example_locations :: BackupStorageLocationList where
  "example_locations =
     \<lparr>BackupStorageLocationList.Items =
        [\<lparr>Namespace = ''stray'', OwnerReferences = None,
          Status = \<lparr>Phase = ''Available''\<rparr>\<rparr>,
         \<lparr>Namespace = ''pending'',
          OwnerReferences = Some [\<lparr>OwnerReference.Kind = ''Velero''\<rparr>],
          Status = \<lparr>Phase = ''Unavailable''\<rparr>\<rparr>,
         \<lparr>Namespace = ''velero-ns'',
          OwnerReferences = Some [\<lparr>OwnerReference.Kind = ''''\<rparr>,
                                  \<lparr>OwnerReference.Kind = ''Velero''\<rparr>],
          Status = \<lparr>Phase = ''Available''\<rparr>\<rparr>,
         \<lparr>Namespace = ''later'',
          OwnerReferences = Some [\<lparr>OwnerReference.Kind = ''Velero''\<rparr>],
          Status = \<lparr>Phase = ''Available''\<rparr>\<rparr>]\<rparr>"

definition example_unavailable_location :: BackupStorageLocationList where
  "example_unavailable_location =
     \<lparr>BackupStorageLocationList.Items =
        [\<lparr>Namespace = ''velero-ns'',
          OwnerReferences = Some [\<lparr>OwnerReference.Kind = ''Velero''\<rparr>],
          Status = \<lparr>Phase = ''Unavailable''\<rparr>\<rparr>]\<rparr>"

text \<open>
  A mapper that knows the cluster version kind, a dynamic client whose listing holds one
  object with the given \<open>spec\<close>, and a dynamic client whose listing fails.
\<close>

definition example_resource :: GroupVersionResource where
  "example_resource =
     \<lparr>GroupVersionResource.Group = ''config.openshift.io'',
      GroupVersionResource.Version = ''v1'',
      GroupVersionResource.Resource = ''clusterversions''\<rparr>"

definition example_mapper :: RESTMapper where
  "example_mapper groupKind versions =
     (if GroupKind.Group groupKind = ''config.openshift.io'' \<and>
         GroupKind.Kind groupKind = ''ClusterVersion''
      then (Some \<lparr>RESTMapping.Resource = example_resource\<rparr>, None)
      else (None, Some ''no matches for kind''))"

definition example_object :: "val \<Rightarrow> (string \<times> val) list" where
  "example_object specInfo = [(''kind'', VString ''ClusterVersion''), (''spec'', specInfo)]"

definition example_dyn :: "val \<Rightarrow> DynamicInterface" where
  "example_dyn specInfo resource =
     Some \<lparr>List =
       (Some \<lparr>UnstructuredList.Items = [\<lparr>Object = Some (example_object specInfo)\<rparr>]\<rparr>,
        None)\<rparr>"

definition example_failing_dyn :: DynamicInterface where
  "example_failing_dyn resource = Some \<lparr>List = (None, Some ''connection refused'')\<rparr>"

definition example_spec :: "(string \<times> val) list" where
  "example_spec =
     [(''channel'', VString ''stable-4.12''), (''clusterID'', VString ''5f3b''),
      (''upstream'', VNil)]"


section \<open>Properties of the collection utilities\<close>

lemma HasSuffix_Nil: "HasSuffix s []"
  by (simp add: HasSuffix_def)

lemma findSuffix_from_first:
  assumes "\<exists>item \<in> set slice. HasSuffix val item"
  shows "\<exists>i < length slice. findSuffix_from k slice val = (int (k + i), True)
           \<and> HasSuffix val (slice ! i) \<and> (\<forall>j < i. \<not> HasSuffix val (slice ! j))"
  using assms
proof (induction slice arbitrary: k)
  case Nil
  then show ?case by simp
next
  case (Cons item rest)
  show ?case
  proof (cases "HasSuffix val item")
    case True
    then show ?thesis by (intro exI[of _ 0]) simp
  next
    case False
    with Cons.prems have "\<exists>x \<in> set rest. HasSuffix val x" by auto
    from Cons.IH[OF this, of "Suc k"] obtain i where i: "i < length rest"
      "findSuffix_from (Suc k) rest val = (int (Suc k + i), True)"
      "HasSuffix val (rest ! i)" "\<forall>j < i. \<not> HasSuffix val (rest ! j)" by blast
    show ?thesis
    proof (intro exI[of _ "Suc i"] conjI allI impI)
      fix j assume "j < Suc i"
      then show "\<not> HasSuffix val ((item # rest) ! j)"
        using False i(4) by (cases j) auto
    qed (use False i in auto)
  qed
qed

text \<open>
  Claim C10. If the pattern sequence given to \<open>findSuffix\<close> contains the empty string,
  then for every value \<open>findSuffix\<close> returns \<open>found = true\<close>, together with the index of
  the first element of the sequence that is a suffix of the value: every string ends with
  the empty string, so an empty pattern matches all values.
\<close>

theorem findSuffix_empty_pattern:
  assumes "'''' \<in> set slice"
  shows "\<exists>i < length slice. findSuffix slice val = (int i, True)
           \<and> HasSuffix val (slice ! i) \<and> (\<forall>j < i. \<not> HasSuffix val (slice ! j))"
proof -
  have "\<exists>item \<in> set slice. HasSuffix val item"
    using assms HasSuffix_Nil by blast
  from findSuffix_from_first[OF this, of 0] show ?thesis
    by (simp add: findSuffix_def)
qed

theorem findSuffix_empty_pattern_witness:
  "'''' \<in> set [''secret'', '''', ''ret''] \<and>
   findSuffix [''secret'', '''', ''ret''] ''claret'' = (1, True) \<and>
   findSuffix [''secret'', '''', ''ret''] '''' = (1, True) \<and>
   findSuffix [''secret'', '''', ''ret''] ''topsecret'' = (0, True)"
  using findSuffix_empty_pattern[of "[''secret'', '''', ''ret'']" "''claret''"]
  by (simp add: findSuffix_def HasSuffix_def)

lemma find_from_snd: "snd (find_from i slice val) = (val \<in> set slice)"
  by (induction slice arbitrary: i) auto

lemma findValue_iff: "findValue slice val = (val \<in> set slice)"
  using find_from_snd[of 0 slice val]
  by (cases "find_from 0 slice val") (simp add: findValue_def find_go_def)

lemma appendUnique_eq: "appendUnique slice v = (if v \<in> set slice then slice else slice @ [v])"
  using find_from_snd[of 0 slice v]
  by (cases "find_from 0 slice v") (simp add: appendUnique_def find_go_def)

lemma set_appendUnique: "set (appendUnique slice v) = insert v (set slice)"
  by (auto simp add: appendUnique_eq)

lemma distinct_appendUnique: "distinct slice \<Longrightarrow> distinct (appendUnique slice v)"
  by (simp add: appendUnique_eq)

lemma count_list_append: "count_list (xs @ ys) v = count_list xs v + count_list ys v"
  by (induction xs) auto

text \<open>
  Claim C9 says that \<open>appendUnique\<close> applied twice with the same value yields exactly one
  occurrence of the value, whatever the starting sequence. \<open>appendUnique\<close> never removes
  anything: a sequence that already holds the value twice keeps both occurrences.
\<close>

theorem appendUnique_twice_counterexample:
  "count_list (appendUnique (appendUnique [''a'', ''a''] ''a'') ''a'') ''a'' \<noteq> 1"
  by (simp add: appendUnique_def find_go_def)

text \<open>
  Claim C9, amended. For every sequence in which the value occurs at most once, applying
  \<open>appendUnique\<close> twice with that value yields a sequence with exactly one occurrence of
  it, and the second application changes nothing.
\<close>

theorem appendUnique_twice_once:
  assumes "count_list slice v \<le> 1"
  shows "count_list (appendUnique (appendUnique slice v) v) v = 1
         \<and> appendUnique (appendUnique slice v) v = appendUnique slice v"
proof (cases "v \<in> set slice")
  case True
  then have "count_list slice v \<noteq> 0" by (simp add: count_list_0_iff)
  with assms True show ?thesis by (simp add: appendUnique_eq)
next
  case False
  then have "count_list slice v = 0" by (simp add: count_list_0_iff)
  with False show ?thesis by (simp add: appendUnique_eq count_list_append)
qed

theorem appendUnique_twice_once_witness:
  "count_list [''b'', ''a''] ''a'' \<le> 1 \<and>
   count_list (appendUnique (appendUnique [''b'', ''a''] ''a'') ''a'') ''a'' = 1 \<and>
   count_list (appendUnique (appendUnique [''b''] ''a'') ''a'') ''a'' = 1 \<and>
   appendUnique (appendUnique [''b''] ''a'') ''a'' = [''b'', ''a'']"
  using appendUnique_twice_once[of "[''b'', ''a'']" "''a''"]
  by (simp add: appendUnique_def find_go_def)


section \<open>Properties of the naming and timestamp utilities\<close>

text \<open>
  Claim C7. \<open>getValidKsRestoreName\<close> returns \<open>clusterRestoreName + "-" + backupName\<close>
  when that has at most 252 bytes, and exactly its first 252 bytes when it is longer; the
  result never exceeds 252 bytes.
\<close>

theorem getValidKsRestoreName_ok:
  "(length (c @ ''-'' @ b) \<le> 252 \<longrightarrow> getValidKsRestoreName c b = c @ ''-'' @ b) \<and>
   (length (c @ ''-'' @ b) > 252 \<longrightarrow> getValidKsRestoreName c b = take 252 (c @ ''-'' @ b)
       \<and> length (getValidKsRestoreName c b) = 252) \<and>
   length (getValidKsRestoreName c b) \<le> 252"
  by (auto simp add: getValidKsRestoreName_def Let_def)

theorem getValidKsRestoreName_ok_witness:
  "getValidKsRestoreName ''cluster1'' ''backup1'' = ''cluster1-backup1'' \<and>
   length (replicate 200 CHR ''c'' @ ''-'' @ replicate 100 CHR ''b'') > 252 \<and>
   getValidKsRestoreName (replicate 200 CHR ''c'') (replicate 100 CHR ''b'')
     = replicate 200 CHR ''c'' @ ''-'' @ replicate 51 CHR ''b''"
  using getValidKsRestoreName_ok[of "replicate 200 CHR ''c''" "replicate 100 CHR ''b''"]
    getValidKsRestoreName_ok[of "''cluster1''" "''backup1''"]
  by simp

lemma HasPrefix_drop_char:
  "HasPrefix (drop i s) [c] = (i < length s \<and> s ! i = c)"
proof (cases "i < length s")
  case True
  then have "drop i s = s ! i # drop (Suc i) s" by (simp add: Cons_nth_drop_Suc)
  then show ?thesis using True by (simp add: HasPrefix_def)
next
  case False
  then show ?thesis by (simp add: HasPrefix_def)
qed

lemma Index_char_absent: "c \<notin> set s \<Longrightarrow> Index s [c] = - 1"
proof -
  assume "c \<notin> set s"
  then have "List.find (\<lambda>i. HasPrefix (drop i s) [c]) [0 ..< Suc (length s)] = None"
    unfolding find_None_iff HasPrefix_drop_char by (metis nth_mem)
  then show ?thesis by (simp add: Index_def)
qed

lemma Index_char_first:
  assumes "c \<notin> set p"
  shows "Index (p @ c # r) [c] = int (length p)"
proof -
  let ?s = "p @ c # r"
  let ?P = "\<lambda>i. HasPrefix (drop i ?s) [c]"
  have "List.find ?P [0 ..< Suc (length ?s)] = Some (length p)"
    unfolding find_Some_iff HasPrefix_drop_char
  proof (intro exI[of _ "length p"] conjI allI impI)
    fix j assume "j < length p"
    then have "?s ! j \<in> set p" by (simp add: nth_append)
    with assms have "?s ! j \<noteq> c" by auto
    then show "\<not> ([0..<Suc (length (p @ c # r))] ! j < length (p @ c # r) \<and>
          (p @ c # r) ! ([0..<Suc (length (p @ c # r))] ! j) = c)"
      using \<open>j < length p\<close> by (simp del: upt_Suc)
  qed (simp_all del: upt_Suc)
  then show ?thesis by (simp add: Index_def)
qed

lemma LastIndex_char_absent: "c \<notin> set s \<Longrightarrow> LastIndex s [c] = - 1"
proof -
  assume "c \<notin> set s"
  then have "List.find (\<lambda>i. HasPrefix (drop i s) [c]) (rev [0 ..< Suc (length s)]) = None"
    unfolding find_None_iff HasPrefix_drop_char by (metis nth_mem)
  then show ?thesis by (simp add: LastIndex_def)
qed

lemma find_rev_upt_last:
  assumes "k < n" "P k" "\<forall>j. k < j \<and> j < n \<longrightarrow> \<not> P j"
  shows "List.find P (rev [0 ..< n]) = Some k"
  using assms
proof (induction n)
  case 0
  then show ?case by simp
next
  case (Suc n)
  show ?case
  proof (cases "k = n")
    case True
    with Suc.prems show ?thesis by simp
  next
    case False
    with Suc.prems have "k < n" "\<not> P n" by auto
    moreover from Suc.prems have "\<forall>j. k < j \<and> j < n \<longrightarrow> \<not> P j" by auto
    ultimately show ?thesis using Suc.IH Suc.prems(2) by simp
  qed
qed

lemma LastIndex_char_last:
  assumes "c \<notin> set r"
  shows "LastIndex (p @ c # r) [c] = int (length p)"
proof -
  let ?s = "p @ c # r"
  let ?P = "\<lambda>i. HasPrefix (drop i ?s) [c]"
  have "\<forall>j. length p < j \<and> j < Suc (length ?s) \<longrightarrow> \<not> ?P j"
  proof (intro allI impI)
    fix j assume j: "length p < j \<and> j < Suc (length ?s)"
    show "\<not> ?P j"
    proof (cases "j < length ?s")
      case True
      with j have "?s ! j = r ! (j - Suc (length p))" "j - Suc (length p) < length r"
        by (auto simp add: nth_append nth_Cons')
      then have "?s ! j \<in> set r" by simp
      with assms show ?thesis unfolding HasPrefix_drop_char by auto
    next
      case False
      then show ?thesis unfolding HasPrefix_drop_char by simp
    qed
  qed
  moreover have "?P (length p)" unfolding HasPrefix_drop_char by simp
  ultimately have "List.find ?P (rev [0 ..< Suc (length ?s)]) = Some (length p)"
    by (intro find_rev_upt_last) simp_all
  then show ?thesis by (simp add: LastIndex_def)
qed

lemma dropWhile_none: "\<forall>x \<in> set xs. \<not> P x \<Longrightarrow> dropWhile P xs = xs"
  by (cases xs) auto

lemma Trim_char_segment:
  assumes "c \<notin> set seg"
  shows "Trim (c # seg) [c] = seg"
proof -
  have "\<forall>x \<in> set seg. \<not> x \<in> set [c]"
    using assms by auto
  then have "dropWhile (\<lambda>x. x \<in> set [c]) seg = seg"
    by (rule dropWhile_none)
  then have "dropWhile (\<lambda>x. x \<in> set [c]) (c # seg) = seg"
    by simp
  moreover have "dropWhile (\<lambda>x. x \<in> set [c]) (rev seg) = rev seg"
    using assms by (intro dropWhile_none) auto
  ultimately show ?thesis by (simp only: Trim_def rev_rev_ident)
qed

text \<open>
  Claim C8. \<open>getResourceDetails\<close> splits at the first dot: a name without a dot is
  returned whole with an empty group, and a name \<open>kind.group\<close> whose \<open>kind\<close> has no dot is
  split into \<open>kind\<close> and \<open>group\<close>, whatever further dots \<open>group\<close> contains.
\<close>

theorem getResourceDetails_first_dot:
  "(CHR ''.'' \<notin> set name \<longrightarrow> getResourceDetails name = (name, '''')) \<and>
   (CHR ''.'' \<notin> set kind \<longrightarrow> getResourceDetails (kind @ ''.'' @ grp) = (kind, grp)) \<and>
   (CHR ''.'' \<in> set name \<longrightarrow>
      (\<exists>kind grp. name = kind @ ''.'' @ grp \<and> CHR ''.'' \<notin> set kind \<and>
         getResourceDetails name = (kind, grp)))"
proof -
  have split: "getResourceDetails (kind @ ''.'' @ grp) = (kind, grp)"
    if "CHR ''.'' \<notin> set kind" for kind grp
  proof -
    from that have "Index (kind @ ''.'' @ grp) ''.'' = int (length kind)"
      by (simp add: Index_char_first)
    moreover have "nat (int (length kind) + 1) = Suc (length kind)" by simp
    ultimately show ?thesis
      by (simp add: getResourceDetails_def)
  qed
  show ?thesis
  proof (intro conjI impI)
    assume "CHR ''.'' \<notin> set name"
    then show "getResourceDetails name = (name, '''')"
      by (simp add: getResourceDetails_def Index_char_absent)
  next
    assume "CHR ''.'' \<notin> set kind"
    then show "getResourceDetails (kind @ ''.'' @ grp) = (kind, grp)"
      by (rule split)
  next
    assume "CHR ''.'' \<in> set name"
    then obtain kind grp where "name = kind @ CHR ''.'' # grp" "CHR ''.'' \<notin> set kind"
      by (auto dest: split_list_first)
    with split[of kind grp]
    show "\<exists>kind grp. name = kind @ ''.'' @ grp \<and> CHR ''.'' \<notin> set kind \<and>
            getResourceDetails name = (kind, grp)"
      by auto
  qed
qed

theorem getResourceDetails_first_dot_witness:
  "CHR ''.'' \<notin> set ''mykind'' \<and>
   getResourceDetails ''mykind.config.openshift.io'' = (''mykind'', ''config.openshift.io'') \<and>
   getResourceDetails ''mykind'' = (''mykind'', '''')"
  using getResourceDetails_first_dot[of "''mykind''" "''mykind''" "''config.openshift.io''"]
  by simp

text \<open>
  Claim C6. \<open>getBackupTimestamp\<close> returns the zero time and no error for a name without
  \<open>-\<close>. Every name with a \<open>-\<close> is \<open>schedule-seg\<close>, where \<open>seg\<close> is the segment after the
  last \<open>-\<close>; for it the function returns what \<open>time.Parse\<close> returns for the layout
  \<open>20060102150405\<close> and \<open>seg\<close>: the parsed time, or the parse error.
\<close>

theorem getBackupTimestamp_segment:
  "(CHR ''-'' \<notin> set backupName \<longrightarrow>
      getBackupTimestamp Parse zeroTime backupName = (zeroTime, None)) \<and>
   (CHR ''-'' \<notin> set seg \<longrightarrow>
      getBackupTimestamp Parse zeroTime (schedule @ ''-'' @ seg) = Parse ''20060102150405'' seg) \<and>
   (CHR ''-'' \<in> set backupName \<longrightarrow>
      (\<exists>schedule seg. backupName = schedule @ ''-'' @ seg \<and> CHR ''-'' \<notin> set seg \<and>
         getBackupTimestamp Parse zeroTime backupName = Parse ''20060102150405'' seg))"
proof -
  have segment: "getBackupTimestamp Parse zeroTime (schedule @ ''-'' @ seg)
                   = Parse ''20060102150405'' seg"
    if "CHR ''-'' \<notin> set seg" for schedule seg
    using that by (simp add: getBackupTimestamp_def LastIndex_char_last Trim_char_segment)
  show ?thesis
  proof (intro conjI impI)
    assume "CHR ''-'' \<notin> set backupName"
    then show "getBackupTimestamp Parse zeroTime backupName = (zeroTime, None)"
      by (simp add: getBackupTimestamp_def LastIndex_char_absent)
  next
    assume "CHR ''-'' \<notin> set seg"
    then show "getBackupTimestamp Parse zeroTime (schedule @ ''-'' @ seg)
                 = Parse ''20060102150405'' seg"
      by (rule segment)
  next
    assume "CHR ''-'' \<in> set backupName"
    then obtain schedule seg where
      "backupName = schedule @ CHR ''-'' # seg" "CHR ''-'' \<notin> set seg"
      by (auto dest: split_list_last)
    with segment[of seg schedule]
    show "\<exists>schedule seg. backupName = schedule @ ''-'' @ seg \<and> CHR ''-'' \<notin> set seg \<and>
            getBackupTimestamp Parse zeroTime backupName = Parse ''20060102150405'' seg"
      by auto
  qed
qed

text \<open>In the example the parser is one that hands back the layout and the string it was
  called with, which shows the arguments of the call to \<open>time.Parse\<close>: the name
  \<open>acm-resources-schedule\<close> has a \<open>-\<close>, so its last segment \<open>schedule\<close> is parsed.\<close>

theorem getBackupTimestamp_segment_witness:
  "CHR ''-'' \<notin> set ''acmresourcesschedule'' \<and> CHR ''-'' \<notin> set ''20230101120000'' \<and>
   getBackupTimestamp (\<lambda>layout v. (Some (layout, v), None)) None
      ''acm-resources-schedule-20230101120000''
     = (Some (''20060102150405'', ''20230101120000''), None) \<and>
   getBackupTimestamp (\<lambda>layout v. (Some (layout, v), None)) None ''acmresourcesschedule''
     = (None, None) \<and>
   getBackupTimestamp (\<lambda>layout v. (Some (layout, v), None)) None ''acm-resources-schedule''
     = (Some (''20060102150405'', ''schedule''), None)"
  using getBackupTimestamp_segment[of "''acmresourcesschedule''"
          "\<lambda>layout v. (Some (layout, v), None)" None "''20230101120000''"
          "''acm-resources-schedule''"]
    getBackupTimestamp_segment[of "''acmresourcesschedule''"
          "\<lambda>layout v. (Some (layout, v), None)" None "''schedule''" "''acm-resources''"]
  by simp


section \<open>Properties of the storage location validator\<close>

lemma ownerReferences_loop_eq:
  "ownerReferences_loop ns refs st =
     (if \<exists>ref \<in> set refs. OwnerReference.Kind ref \<noteq> '''' then (True, ns) else st)"
  by (induction refs) auto

lemma item_step_eq:
  "(case OwnerReferences item of
      None \<Rightarrow> (False, x)
    | Some refs \<Rightarrow>
        if Phase (Status item) = BackupStorageLocationPhaseAvailable
        then ownerReferences_loop (Namespace item) refs (False, x)
        else (False, x))
   = (if qualifies item then (True, Namespace item) else (False, x))"
  by (cases "OwnerReferences item")
     (auto simp add: qualifies_def ownerReferences_loop_eq BackupStorageLocationPhaseAvailable_def)

lemma items_loop_find:
  "items_loop items (False, x) =
     (case List.find qualifies items of
        None \<Rightarrow> (False, x)
      | Some loc \<Rightarrow> (True, Namespace loc))"
proof (induction items)
  case Nil
  show ?case by simp
next
  case (Cons item items)
  show ?case
    unfolding items_loop.simps item_step_eq
    using Cons.IH by (simp add: Let_def)
qed

text \<open>
  Claim C5. \<open>isValidStorageLocationDefined\<close> returns \<open>(true, ns)\<close> where \<open>ns\<close> is the
  namespace of the first location of the list that has an owner reference with a non-empty
  kind and is in phase \<open>Available\<close>, and \<open>(false, "")\<close> if no location qualifies. Nothing
  after the first match is looked at.
\<close>

theorem isValidStorageLocationDefined_first_match:
  "isValidStorageLocationDefined locations =
     (case List.find qualifies (BackupStorageLocationList.Items locations) of
        None \<Rightarrow> (False, '''')
      | Some loc \<Rightarrow> (True, Namespace loc))"
  by (simp add: isValidStorageLocationDefined_def items_loop_find)

theorem isValidStorageLocationDefined_first_match_witness:
  "isValidStorageLocationDefined example_locations = (True, ''velero-ns'') \<and>
   isValidStorageLocationDefined example_unavailable_location = (False, '''')"
  using isValidStorageLocationDefined_first_match[of example_locations]
    isValidStorageLocationDefined_first_match[of example_unavailable_location]
  by (simp add: example_locations_def example_unavailable_location_def qualifies_def)


section \<open>Properties of the generic resource discovery\<close>

lemma admitted_Un: "admitted excl (A \<union> B) = admitted excl A \<union> admitted excl B"
  by (auto simp add: admitted_def)

lemma admitted_empty: "admitted excl {} = {}"
  by (simp add: admitted_def)

lemma admitted_insert:
  "admitted excl (insert (k, n) A) =
     (if n \<notin> set excl \<and> k \<notin> set excl then insert n (admitted excl A) else admitted excl A)"
  by (auto simp add: admitted_def)

lemma apiResources_loop_Some:
  "\<exists>resources'. apiResources_loop ToLower (Some backup) grp rl resources = Return resources'
     \<and> set resources' = set resources
          \<union> admitted (ExcludedResources (Spec backup)) (names_of ToLower grp rl)
     \<and> (distinct resources \<longrightarrow> distinct resources')"
proof (induction rl arbitrary: resources)
  case Nil
  show ?case by (simp add: names_of_def admitted_empty)
next
  case (Cons resource rest)
  let ?k = "ToLower (APIResource.Kind resource)"
  let ?n = "?k @ ''.'' @ Name grp"
  let ?excl = "ExcludedResources (Spec backup)"
  have names: "names_of ToLower grp (resource # rest) = insert (?k, ?n) (names_of ToLower grp rest)"
    by (simp add: names_of_def)
  show ?case
  proof (cases "?n \<notin> set ?excl \<and> ?k \<notin> set ?excl")
    case True
    from Cons.IH[of "appendUnique resources ?n"] obtain resources' where
      r: "apiResources_loop ToLower (Some backup) grp rest (appendUnique resources ?n) = Return resources'"
         "set resources' = set (appendUnique resources ?n) \<union> admitted ?excl (names_of ToLower grp rest)"
         "distinct (appendUnique resources ?n) \<longrightarrow> distinct resources'"
      by blast
    have "apiResources_loop ToLower (Some backup) grp (resource # rest) resources = Return resources'"
      using True r(1) by (simp add: findValue_iff Let_def)
    moreover have "set resources' = set resources \<union> admitted ?excl (names_of ToLower grp (resource # rest))"
      using True r(2) unfolding names admitted_insert by (simp add: set_appendUnique)
    moreover have "distinct resources \<longrightarrow> distinct resources'"
      using r(3) by (simp add: distinct_appendUnique)
    ultimately show ?thesis by blast
  next
    case False
    from Cons.IH[of resources] obtain resources' where
      r: "apiResources_loop ToLower (Some backup) grp rest resources = Return resources'"
         "set resources' = set resources \<union> admitted ?excl (names_of ToLower grp rest)"
         "distinct resources \<longrightarrow> distinct resources'"
      by blast
    have "apiResources_loop ToLower (Some backup) grp (resource # rest) resources = Return resources'"
      using False r(1) by (auto simp add: findValue_iff Let_def)
    moreover have "set resources' = set resources \<union> admitted ?excl (names_of ToLower grp (resource # rest))"
      using False r(2) unfolding names admitted_insert by auto
    ultimately show ?thesis using r(3) by blast
  qed
qed

lemma versions_loop_Some:
  "\<exists>resources'. versions_loop ToLower dc (Some backup) grp vs resources = Return resources'
     \<and> set resources' = set resources
          \<union> admitted (ExcludedResources (Spec backup))
              (\<Union>version \<in> set vs. offered_by_version ToLower dc grp version)
     \<and> (distinct resources \<longrightarrow> distinct resources')"
proof (induction vs arbitrary: resources)
  case Nil
  show ?case by (simp add: admitted_empty)
next
  case (Cons version rest)
  let ?excl = "ExcludedResources (Spec backup)"
  let ?U = "\<lambda>vs. (\<Union>version \<in> set vs. offered_by_version ToLower dc grp version)"
  have U: "?U (version # rest) = offered_by_version ToLower dc grp version \<union> ?U rest"
    by simp
  obtain resourceList err where
    srv: "ServerResourcesForGroupVersion dc (GroupVersion version) = (resourceList, err)"
    by (cases "ServerResourcesForGroupVersion dc (GroupVersion version)")
  show ?case
  proof (cases "err = None \<and> resourceList \<noteq> None \<and> Name grp \<noteq> ''''")
    case True
    then obtain rl where rl: "resourceList = Some rl" "err = None" "Name grp \<noteq> ''''" by auto
    from apiResources_loop_Some[of ToLower backup grp "APIResources rl" resources]
    obtain mid where
      m: "apiResources_loop ToLower (Some backup) grp (APIResources rl) resources = Return mid"
         "set mid = set resources \<union> admitted ?excl (names_of ToLower grp (APIResources rl))"
         "distinct resources \<longrightarrow> distinct mid"
      by blast
    from Cons.IH[of mid] obtain resources' where
      r: "versions_loop ToLower dc (Some backup) grp rest mid = Return resources'"
         "set resources' = set mid \<union> admitted ?excl (?U rest)"
         "distinct mid \<longrightarrow> distinct resources'"
      by blast
    have "versions_loop ToLower dc (Some backup) grp (version # rest) resources = Return resources'"
      using srv rl m(1) r(1) by simp
    moreover have "offered_by_version ToLower dc grp version = names_of ToLower grp (APIResources rl)"
      using srv rl by (simp add: offered_by_version_def)
    then have "set resources' = set resources \<union> admitted ?excl (?U (version # rest))"
      unfolding U admitted_Un using m(2) r(2) by auto
    ultimately show ?thesis using m(3) r(3) by blast
  next
    case False
    from Cons.IH[of resources] obtain resources' where
      r: "versions_loop ToLower dc (Some backup) grp rest resources = Return resources'"
         "set resources' = set resources \<union> admitted ?excl (?U rest)"
         "distinct resources \<longrightarrow> distinct resources'"
      by blast
    have "versions_loop ToLower dc (Some backup) grp (version # rest) resources = Return resources'"
      using srv False r(1) by (cases resourceList; cases err) auto
    moreover have "offered_by_version ToLower dc grp version = {}"
      using srv False by (cases resourceList; cases err) (auto simp add: offered_by_version_def)
    then have "set resources' = set resources \<union> admitted ?excl (?U (version # rest))"
      unfolding U admitted_Un using r(2) by (simp add: admitted_empty)
    ultimately show ?thesis using r(3) by blast
  qed
qed

lemma groups_loop_Some:
  "\<exists>resources'. groups_loop ToLower dc (Some backup) groups resources = Return resources'
     \<and> set resources' = set resources
          \<union> admitted (ExcludedResources (Spec backup)) (offered ToLower dc groups)
     \<and> (distinct resources \<longrightarrow> distinct resources')"
proof (induction groups arbitrary: resources)
  case Nil
  show ?case by (simp add: admitted_empty offered_def)
next
  case (Cons grp rest)
  let ?excl = "ExcludedResources (Spec backup)"
  from versions_loop_Some[of ToLower dc backup grp "Versions grp" resources]
  obtain mid where
    m: "versions_loop ToLower dc (Some backup) grp (Versions grp) resources = Return mid"
       "set mid = set resources
          \<union> admitted ?excl (\<Union>version \<in> set (Versions grp). offered_by_version ToLower dc grp version)"
       "distinct resources \<longrightarrow> distinct mid"
    by blast
  from Cons.IH[of mid] obtain resources' where
    r: "groups_loop ToLower dc (Some backup) rest mid = Return resources'"
       "set resources' = set mid \<union> admitted ?excl (offered ToLower dc rest)"
       "distinct mid \<longrightarrow> distinct resources'"
    by blast
  have "groups_loop ToLower dc (Some backup) (grp # rest) resources = Return resources'"
    using m(1) r(1) by simp
  moreover have "offered ToLower dc (grp # rest) =
      (\<Union>version \<in> set (Versions grp). offered_by_version ToLower dc grp version)
        \<union> offered ToLower dc rest"
    by (simp add: offered_def)
  then have "set resources' = set resources \<union> admitted ?excl (offered ToLower dc (grp # rest))"
    using m(2) r(2) by (simp add: admitted_Un Un_assoc)
  ultimately show ?case using m(3) r(3) by blast
qed

lemma getGeneric_Some:
  "\<exists>resources err. getGenericCRDFromAPIGroups ToLower dc (Some backup) = Return (resources, err)
     \<and> (err = None) = (snd (ServerGroups dc) = None)
     \<and> set resources = admitted (ExcludedResources (Spec backup)) (offered ToLower dc (catalog dc))
     \<and> distinct resources"
proof -
  obtain groupList err where sg: "ServerGroups dc = (groupList, err)"
    by (cases "ServerGroups dc")
  show ?thesis
  proof (cases err)
    case (Some e)
    with sg show ?thesis
      by (cases groupList)
         (simp_all add: getGenericCRDFromAPIGroups_def catalog_def offered_def admitted_empty)
  next
    case None
    show ?thesis
    proof (cases groupList)
      case None
      with sg \<open>err = None\<close> show ?thesis
        by (simp add: getGenericCRDFromAPIGroups_def catalog_def offered_def admitted_empty)
    next
      case (Some gl)
      from groups_loop_Some[of ToLower dc backup "Groups gl" "[]"] obtain resources' where
        "groups_loop ToLower dc (Some backup) (Groups gl) [] = Return resources'"
        "set resources' = admitted (ExcludedResources (Spec backup)) (offered ToLower dc (Groups gl))"
        "distinct resources'"
        by auto
      with sg \<open>err = None\<close> Some show ?thesis
        by (simp add: getGenericCRDFromAPIGroups_def catalog_def)
    qed
  qed
qed

lemma example_run:
  "getGenericCRDFromAPIGroups toLowerASCII example_catalog (Some example_backup)
     = Return ([''deployment.apps''], None)"
  by (simp add: getGenericCRDFromAPIGroups_def example_catalog_def example_backup_def
        toLowerASCII_def findValue_def find_go_def appendUnique_def)

text \<open>
  Claim C1. For every catalog and every exclusion list, the names that
  \<open>getGenericCRDFromAPIGroups\<close> returns are pairwise distinct, and each of them is the
  lowercased kind of a resource, a dot and the name of a group of the catalog, such that
  neither the name nor the bare kind is an element of the exclusion list. The result is
  exactly the set of admitted names that the catalog offers.
\<close>

theorem getGenericCRDFromAPIGroups_admits:
  "\<exists>resources err.
     getGenericCRDFromAPIGroups ToLower dc (Some backup) = Return (resources, err)
     \<and> distinct resources
     \<and> set resources
         = admitted (ExcludedResources (Spec backup)) (offered ToLower dc (catalog dc))
     \<and> (\<forall>name \<in> set resources.
           name \<notin> set (ExcludedResources (Spec backup))
         \<and> (\<exists>grp (resource :: APIResource). grp \<in> set (catalog dc)
               \<and> name = ToLower (APIResource.Kind resource) @ ''.'' @ Name grp
               \<and> ToLower (APIResource.Kind resource) \<notin> set (ExcludedResources (Spec backup))))"
proof -
  let ?excl = "ExcludedResources (Spec backup)"
  from getGeneric_Some[of ToLower dc backup] obtain resources err where
    run: "getGenericCRDFromAPIGroups ToLower dc (Some backup) = Return (resources, err)"
    and d: "distinct resources"
    and s: "set resources = admitted ?excl (offered ToLower dc (catalog dc))"
    by blast
  have "\<forall>name \<in> set resources.
           name \<notin> set ?excl
         \<and> (\<exists>grp (resource :: APIResource). grp \<in> set (catalog dc)
               \<and> name = ToLower (APIResource.Kind resource) @ ''.'' @ Name grp
               \<and> ToLower (APIResource.Kind resource) \<notin> set ?excl)"
  proof
    fix name assume "name \<in> set resources"
    with s obtain kind where k: "(kind, name) \<in> offered ToLower dc (catalog dc)"
      "name \<notin> set ?excl" "kind \<notin> set ?excl"
      by (auto simp add: admitted_def)
    from k(1) obtain grp version where g: "grp \<in> set (catalog dc)"
      "(kind, name) \<in> offered_by_version ToLower dc grp version"
      by (auto simp add: offered_def)
    from g(2) obtain resource :: APIResource where
      "kind = ToLower (APIResource.Kind resource)" "name = kind @ ''.'' @ Name grp"
      by (auto simp add: offered_by_version_def names_of_def
            split: prod.splits option.splits if_splits)
    with g(1) k(2,3) show "name \<notin> set ?excl
         \<and> (\<exists>grp (resource :: APIResource). grp \<in> set (catalog dc)
               \<and> name = ToLower (APIResource.Kind resource) @ ''.'' @ Name grp
               \<and> ToLower (APIResource.Kind resource) \<notin> set ?excl)"
      by blast
  qed
  with run d s show ?thesis by blast
qed

theorem getGenericCRDFromAPIGroups_admits_witness:
  "getGenericCRDFromAPIGroups toLowerASCII example_catalog (Some example_backup)
     = Return ([''deployment.apps''], None)
   \<and> distinct [''deployment.apps'']
   \<and> set [''deployment.apps'']
       = admitted (ExcludedResources (Spec example_backup))
           (offered toLowerASCII example_catalog (catalog example_catalog))
   \<and> ''deployment.apps'' \<notin> set (ExcludedResources (Spec example_backup))"
proof -
  from getGenericCRDFromAPIGroups_admits[of toLowerASCII example_catalog example_backup]
  obtain resources err where
    run: "getGenericCRDFromAPIGroups toLowerASCII example_catalog (Some example_backup)
            = Return (resources, err)"
    and d: "distinct resources"
    and s: "set resources = admitted (ExcludedResources (Spec example_backup))
              (offered toLowerASCII example_catalog (catalog example_catalog))"
    and a: "\<forall>name \<in> set resources. name \<notin> set (ExcludedResources (Spec example_backup))"
    by blast
  from run example_run have resources: "resources = [''deployment.apps'']"
    by simp
  from a have "''deployment.apps'' \<notin> set (ExcludedResources (Spec example_backup))"
    unfolding resources by simp
  with example_run d s show ?thesis
    unfolding resources by (intro conjI)
qed

lemma versions_loop_cong:
  assumes "ServerResourcesForGroupVersion dc' = ServerResourcesForGroupVersion dc"
  shows "versions_loop ToLower dc' veleroBackup grp vs resources
           = versions_loop ToLower dc veleroBackup grp vs resources"
  using assms by (induction vs arbitrary: resources) (auto split: prod.splits option.splits outcome.splits)

lemma apiResources_loop_group_name:
  assumes "Name grp' = Name grp"
  shows "apiResources_loop ToLower veleroBackup grp' rl resources
           = apiResources_loop ToLower veleroBackup grp rl resources"
  using assms by (induction rl arbitrary: resources) (auto simp add: Let_def split: option.splits)

lemma versions_loop_group_name:
  assumes "Name grp' = Name grp"
  shows "versions_loop ToLower dc veleroBackup grp' vs resources
           = versions_loop ToLower dc veleroBackup grp vs resources"
  using assms
  by (induction vs arbitrary: resources)
     (auto simp add: apiResources_loop_group_name[OF assms] split: prod.splits option.splits outcome.splits)

lemma versions_loop_filter_fetched:
  "versions_loop ToLower dc veleroBackup grp (filter (fetched dc) vs) resources
     = versions_loop ToLower dc veleroBackup grp vs resources"
  by (induction vs arbitrary: resources)
     (auto simp add: fetched_def split: prod.splits option.splits outcome.splits)

lemma groups_loop_cong:
  assumes "ServerResourcesForGroupVersion dc' = ServerResourcesForGroupVersion dc"
  shows "groups_loop ToLower dc' veleroBackup groups resources
           = groups_loop ToLower dc veleroBackup groups resources"
  by (induction groups arbitrary: resources)
     (auto simp add: versions_loop_cong[OF assms] split: outcome.splits)

lemma groups_loop_filter_fetched:
  "groups_loop ToLower dc veleroBackup
       (map (\<lambda>grp. grp\<lparr>Versions := filter (fetched dc) (Versions grp)\<rparr>) groups) resources
     = groups_loop ToLower dc veleroBackup groups resources"
proof (induction groups arbitrary: resources)
  case Nil
  show ?case by simp
next
  case (Cons grp rest)
  let ?grp' = "grp\<lparr>Versions := filter (fetched dc) (Versions grp)\<rparr>"
  have "versions_loop ToLower dc veleroBackup ?grp' (Versions ?grp') resources
          = versions_loop ToLower dc veleroBackup grp (Versions grp) resources"
    using versions_loop_group_name[of ?grp' grp ToLower dc veleroBackup "filter (fetched dc) (Versions grp)" resources]
    by (simp add: versions_loop_filter_fetched)
  then show ?case using Cons.IH by (simp split: outcome.splits)
qed

lemma groups_loop_ServerGroups_update:
  "groups_loop ToLower (dc\<lparr>ServerGroups := x\<rparr>) veleroBackup groups resources
     = groups_loop ToLower dc veleroBackup groups resources"
  by (rule groups_loop_cong) simp

lemma getGeneric_without_failed:
  "getGenericCRDFromAPIGroups ToLower (without_failed dc) veleroBackup
     = getGenericCRDFromAPIGroups ToLower dc veleroBackup"
proof -
  obtain groupList err where sg: "ServerGroups dc = (groupList, err)"
    by (cases "ServerGroups dc")
  show ?thesis
    using sg
    by (cases groupList; cases err)
       (simp_all add: getGenericCRDFromAPIGroups_def without_failed_def
          groups_loop_ServerGroups_update groups_loop_filter_fetched)
qed

text \<open>
  Claim C2. \<open>getGenericCRDFromAPIGroups\<close> returns an error exactly when the fetch of the
  group list fails, and then returns at once with no resources. When the fetch succeeds
  with no group list or an empty one, the result is empty and there is no error. When the
  fetch succeeds, the call succeeds whatever the fetches of the group-versions do, and its
  result is the result for the catalog without the group-versions whose fetch fails.
\<close>

theorem getGenericCRDFromAPIGroups_errors:
  "((\<exists>resources e. getGenericCRDFromAPIGroups ToLower dc veleroBackup = Return (resources, Some e))
      \<longleftrightarrow> snd (ServerGroups dc) \<noteq> None)
   \<and> (snd (ServerGroups dc) = Some e \<longrightarrow>
        getGenericCRDFromAPIGroups ToLower dc veleroBackup
          = Return ([], Some (''failed to get server groups: '' @ e)))
   \<and> (ServerGroups dc = (None, None) \<or>
        (ServerGroups dc = (Some groupList, None) \<and> Groups groupList = []) \<longrightarrow>
        getGenericCRDFromAPIGroups ToLower dc veleroBackup = Return ([], None))
   \<and> (snd (ServerGroups dc) = None \<longrightarrow>
        (\<exists>resources. getGenericCRDFromAPIGroups ToLower dc (Some backup) = Return (resources, None))
        \<and> getGenericCRDFromAPIGroups ToLower dc (Some backup)
            = getGenericCRDFromAPIGroups ToLower (without_failed dc) (Some backup))"
proof (intro conjI impI)
  obtain groupList' err where sg: "ServerGroups dc = (groupList', err)"
    by (cases "ServerGroups dc")
  show "(\<exists>resources e. getGenericCRDFromAPIGroups ToLower dc veleroBackup = Return (resources, Some e))
      \<longleftrightarrow> snd (ServerGroups dc) \<noteq> None"
    using sg
    by (cases groupList'; cases err)
       (auto simp add: getGenericCRDFromAPIGroups_def split: outcome.splits)
next
  assume "snd (ServerGroups dc) = Some e"
  then show "getGenericCRDFromAPIGroups ToLower dc veleroBackup
          = Return ([], Some (''failed to get server groups: '' @ e))"
    by (cases "ServerGroups dc"; cases "fst (ServerGroups dc)")
       (simp_all add: getGenericCRDFromAPIGroups_def)
next
  assume "ServerGroups dc = (None, None) \<or>
        (ServerGroups dc = (Some groupList, None) \<and> Groups groupList = [])"
  then show "getGenericCRDFromAPIGroups ToLower dc veleroBackup = Return ([], None)"
    by (auto simp add: getGenericCRDFromAPIGroups_def)
next
  assume ok: "snd (ServerGroups dc) = None"
  from getGeneric_Some[of ToLower dc backup] ok
  show "\<exists>resources. getGenericCRDFromAPIGroups ToLower dc (Some backup) = Return (resources, None)"
    by auto
next
  show "getGenericCRDFromAPIGroups ToLower dc (Some backup)
            = getGenericCRDFromAPIGroups ToLower (without_failed dc) (Some backup)"
    by (simp add: getGeneric_without_failed)
qed

theorem getGenericCRDFromAPIGroups_errors_witness:
  "snd (ServerGroups example_catalog) = None
   \<and> \<not> fetched example_catalog \<lparr>GroupVersion = ''batch/v1'', Version = ''v1''\<rparr>
   \<and> getGenericCRDFromAPIGroups toLowerASCII example_catalog (Some example_backup)
       = Return ([''deployment.apps''], None)
   \<and> getGenericCRDFromAPIGroups toLowerASCII (without_failed example_catalog)
         (Some example_backup)
       = Return ([''deployment.apps''], None)
   \<and> snd (ServerGroups example_unavailable) = Some ''connection refused''
   \<and> getGenericCRDFromAPIGroups toLowerASCII example_unavailable (Some example_backup)
       = Return ([], Some ''failed to get server groups: connection refused'')"
proof -
  have ok: "snd (ServerGroups example_catalog) = None"
    by (simp add: example_catalog_def)
  have failed: "snd (ServerGroups example_unavailable) = Some ''connection refused''"
    by (simp add: example_unavailable_def)
  have skipped: "\<not> fetched example_catalog \<lparr>GroupVersion = ''batch/v1'', Version = ''v1''\<rparr>"
    by (simp add: fetched_def example_catalog_def)
  from getGenericCRDFromAPIGroups_errors[of toLowerASCII example_catalog
         "Some example_backup" "''connection refused''" undefined example_backup]
       getGenericCRDFromAPIGroups_errors[of toLowerASCII example_unavailable
         "Some example_backup" "''connection refused''" undefined example_backup]
       ok failed skipped example_run
  show ?thesis by simp
qed


section \<open>Properties of the hub identity resolver\<close>

lemma mapRange_loop_absent:
  "''clusterID'' \<notin> fst ` set entries \<Longrightarrow> mapRange_loop entries uid = Return uid"
  by (induction entries arbitrary: uid) auto

lemma mapRange_loop_string:
  assumes "(''clusterID'', VString s) \<in> set entries"
    and "\<forall>v. (''clusterID'', v) \<in> set entries \<longrightarrow> v = VString s"
  shows "mapRange_loop entries uid = Return s"
  using assms
proof (induction entries arbitrary: uid)
  case Nil
  then show ?case by simp
next
  case (Cons entry rest)
  obtain key v where entry: "entry = (key, v)" by (cases entry)
  have all: "\<forall>v. (''clusterID'', v) \<in> set rest \<longrightarrow> v = VString s"
    using Cons.prems(2) by auto
  have rest: "mapRange_loop rest s = Return s"
  proof (cases "''clusterID'' \<in> fst ` set rest")
    case True
    then obtain v' where "(''clusterID'', v') \<in> set rest" by force
    with all have "(''clusterID'', VString s) \<in> set rest" by auto
    from Cons.IH[OF this all] show ?thesis .
  next
    case False
    then show ?thesis by (rule mapRange_loop_absent)
  qed
  show ?case
  proof (cases "key = ''clusterID''")
    case True
    with Cons.prems(2) entry have "v = VString s" by auto
    with True entry rest show ?thesis by simp
  next
    case False
    with Cons.prems(1) entry have "(''clusterID'', VString s) \<in> set rest" by auto
    from Cons.IH[OF this all] False entry show ?thesis by simp
  qed
qed

text \<open>An entry that binds \<open>clusterID\<close> to anything but a string makes the loop panic,
  wherever it stands in the iteration order.\<close>

lemma mapRange_loop_not_string:
  assumes "(''clusterID'', v) \<in> set entries" and "\<forall>s. v \<noteq> VString s"
  shows "mapRange_loop entries uid = Panic"
  using assms
proof (induction entries arbitrary: uid)
  case Nil
  then show ?case by simp
next
  case (Cons entry rest)
  obtain key w where entry: "entry = (key, w)" by (cases entry)
  show ?case
  proof (cases "entry = (''clusterID'', v)")
    case True
    with entry Cons.prems(2) show ?thesis by (cases v) auto
  next
    case False
    with Cons.prems(1) have "(''clusterID'', v) \<in> set rest" by auto
    from Cons.IH[OF this Cons.prems(2)] entry show ?thesis
      by (cases w) auto
  qed
qed

lemma example_mapper_resolves:
  "example_mapper \<lparr>GroupKind.Group = ''config.openshift.io'',
                   GroupKind.Kind = ''ClusterVersion''\<rparr> ['''']
     = (Some \<lparr>RESTMapping.Resource = example_resource\<rparr>, None)"
  by (simp add: example_mapper_def)

lemma example_dyn_resource:
  "example_dyn specInfo (RESTMapping.Resource \<lparr>RESTMapping.Resource = example_resource\<rparr>)
     = Some \<lparr>List =
         (Some \<lparr>UnstructuredList.Items = [\<lparr>Object = Some (example_object specInfo)\<rparr>]\<rparr>,
          None)\<rparr>"
  by (simp add: example_dyn_def)

text \<open>
  Claim C3 says that a \<open>clusterID\<close> bound to a value that is not a string makes
  \<open>getHubIdentification\<close> return the identity \<open>unknown\<close> without a panic. The type
  assertion \<open>value.(string)\<close> of the source is unchecked: on a cluster version object
  whose \<open>spec.clusterID\<close> is the number 42 the call panics.
\<close>

theorem getHubIdentification_clusterID_not_string:
  "getHubIdentification
     (example_dyn (VMap [(''channel'', VString ''stable-4.12''), (''clusterID'', VInt 42)]))
     example_mapper = Panic"
  by (simp add: getHubIdentification_def example_dyn_def example_mapper_def
        example_object_def lookup_def)

text \<open>
  Claim C4 says that a listing that is \<open>nil\<close> gives the identity \<open>unknown\<close> with no error.
  When the list call fails, the listing is \<open>nil\<close> and the error of the list call is
  returned with the identity.
\<close>

theorem getHubIdentification_list_error_counterexample:
  "fst (List \<lparr>List = (None, Some ''connection refused'')\<rparr>) = None \<and>
   getHubIdentification example_failing_dyn example_mapper
     = Return (''unknown'', Some ''connection refused'') \<and>
   getHubIdentification example_failing_dyn example_mapper \<noteq> Return (''unknown'', None)"
  by (simp add: getHubIdentification_def example_failing_dyn_def example_mapper_def)

text \<open>
  Claim C4, amended. Let the mapper resolve the cluster version kind and the dynamic client
  give a resource interface. When the list call reports an error, \<open>getHubIdentification\<close>
  returns \<open>unknown\<close> and that error. When it reports none, the result is \<open>unknown\<close> with no
  error if the listing is \<open>nil\<close> or empty, if the payload of the first item is \<open>nil\<close>, if
  the payload has no \<open>spec\<close> (the key is absent or bound to \<open>nil\<close>), or if \<open>spec\<close> is a map
  without the key \<open>clusterID\<close>; and it is the string \<open>s\<close> with no error if \<open>spec\<close> is a map
  that binds \<open>clusterID\<close> to the string \<open>s\<close>.
\<close>

theorem getHubIdentification_best_effort:
  assumes "mapper \<lparr>GroupKind.Group = ''config.openshift.io'',
                   GroupKind.Kind = ''ClusterVersion''\<rparr> [''''] = (Some mapping, None)"
    and "dyn (RESTMapping.Resource mapping) = Some dr"
  shows
    "(List dr = (items, Some e) \<longrightarrow>
        getHubIdentification dyn mapper = Return (''unknown'', Some e))
   \<and> (List dr = (None, None) \<longrightarrow>
        getHubIdentification dyn mapper = Return (''unknown'', None))
   \<and> (List dr = (Some listing, None) \<and> UnstructuredList.Items listing = [] \<longrightarrow>
        getHubIdentification dyn mapper = Return (''unknown'', None))
   \<and> (List dr = (Some listing, None) \<and> UnstructuredList.Items listing = item # others \<longrightarrow>
        (Object item = None \<longrightarrow>
           getHubIdentification dyn mapper = Return (''unknown'', None))
      \<and> (Object item = Some object \<and> lookup object ''spec'' = VNil \<longrightarrow>
           getHubIdentification dyn mapper = Return (''unknown'', None))
      \<and> (Object item = Some object \<and> lookup object ''spec'' = VMap entries \<and>
           ''clusterID'' \<notin> fst ` set entries \<longrightarrow>
           getHubIdentification dyn mapper = Return (''unknown'', None))
      \<and> (Object item = Some object \<and> lookup object ''spec'' = VMap entries \<and>
           (''clusterID'', VString s) \<in> set entries \<and>
           (\<forall>v. (''clusterID'', v) \<in> set entries \<longrightarrow> v = VString s) \<longrightarrow>
           getHubIdentification dyn mapper = Return (s, None)))"
  using assms
  by (auto simp add: getHubIdentification_def Let_def mapRange_loop_absent mapRange_loop_string
        split: option.splits)

theorem getHubIdentification_best_effort_witness:
  "example_mapper \<lparr>GroupKind.Group = ''config.openshift.io'',
                   GroupKind.Kind = ''ClusterVersion''\<rparr> ['''']
     = (Some \<lparr>RESTMapping.Resource = example_resource\<rparr>, None)
   \<and> lookup (example_object (VMap example_spec)) ''spec'' = VMap example_spec
   \<and> (''clusterID'', VString ''5f3b'') \<in> set example_spec
   \<and> getHubIdentification (example_dyn (VMap example_spec)) example_mapper
       = Return (''5f3b'', None)
   \<and> getHubIdentification (example_dyn VNil) example_mapper = Return (''unknown'', None)"
proof -
  let ?mapping = "\<lparr>RESTMapping.Resource = example_resource\<rparr>"
  let ?item = "\<lambda>specInfo. \<lparr>Object = Some (example_object specInfo)\<rparr>"
  let ?listing = "\<lambda>specInfo. \<lparr>UnstructuredList.Items = [?item specInfo]\<rparr>"
  let ?dr = "\<lambda>specInfo. \<lparr>List = (Some (?listing specInfo), None)\<rparr>"
  have spec: "lookup (example_object specInfo) ''spec'' = specInfo" for specInfo
    by (simp add: lookup_def example_object_def)
  have bound: "(''clusterID'', VString ''5f3b'') \<in> set example_spec"
    by (simp add: example_spec_def)
  have only: "\<forall>v. (''clusterID'', v) \<in> set example_spec \<longrightarrow> v = VString ''5f3b''"
    by (simp add: example_spec_def)
  note at_spec = getHubIdentification_best_effort[
      where mapper = example_mapper and mapping = ?mapping
        and dyn = "example_dyn (VMap example_spec)" and dr = "?dr (VMap example_spec)"
        and listing = "?listing (VMap example_spec)" and item = "?item (VMap example_spec)"
        and others = "[]" and object = "example_object (VMap example_spec)"
        and entries = example_spec and s = "''5f3b''",
      OF example_mapper_resolves example_dyn_resource]
  note at_nil = getHubIdentification_best_effort[
      where mapper = example_mapper and mapping = ?mapping
        and dyn = "example_dyn VNil" and dr = "?dr VNil"
        and listing = "?listing VNil" and item = "?item VNil"
        and others = "[]" and object = "example_object VNil",
      OF example_mapper_resolves example_dyn_resource]
  have with_id: "getHubIdentification (example_dyn (VMap example_spec)) example_mapper
       = Return (''5f3b'', None)"
  proof (rule at_spec[THEN conjunct2, THEN conjunct2, THEN conjunct2, THEN mp,
                      THEN conjunct2, THEN conjunct2, THEN conjunct2, THEN mp])
    show "List (?dr (VMap example_spec)) = (Some (?listing (VMap example_spec)), None) \<and>
          UnstructuredList.Items (?listing (VMap example_spec)) = [?item (VMap example_spec)]"
      by simp
    show "Object (?item (VMap example_spec)) = Some (example_object (VMap example_spec)) \<and>
          lookup (example_object (VMap example_spec)) ''spec'' = VMap example_spec \<and>
          (''clusterID'', VString ''5f3b'') \<in> set example_spec \<and>
          (\<forall>v. (''clusterID'', v) \<in> set example_spec \<longrightarrow> v = VString ''5f3b'')"
      by (intro conjI; (rule only | rule bound | rule spec | simp))
  qed
  have without_spec: "getHubIdentification (example_dyn VNil) example_mapper
       = Return (''unknown'', None)"
  proof (rule at_nil[THEN conjunct2, THEN conjunct2, THEN conjunct2, THEN mp,
                     THEN conjunct2, THEN conjunct1, THEN mp])
    show "List (?dr VNil) = (Some (?listing VNil), None) \<and>
          UnstructuredList.Items (?listing VNil) = [?item VNil]"
      by simp
    show "Object (?item VNil) = Some (example_object VNil) \<and>
          lookup (example_object VNil) ''spec'' = VNil"
      by (intro conjI; (rule spec | simp))
  qed
  show ?thesis
    by (intro conjI; (rule example_mapper_resolves | rule spec | rule bound
                       | rule with_id | rule without_spec))
qed

end
